theory Spec2Isabelle
  imports Complex_Main
begin

section \<open>Data model\<close>

text \<open>
  A raw entity is the JSON object the NER service emits per token. Every key may be
  absent (\<open>None\<close>), which is what the source's \<^verbatim>\<open>dict.get(key, default)\<close> calls
  cater for. Offsets are Python integers (unbounded, possibly negative); the score is
  only ever copied, and is a rational here. Characters of a \<open>string\<close> stand for the
  code points below 256 of a Python \<^verbatim>\<open>str\<close>.
\<close>

record raw_entity =
  word :: "string option"
  entity :: "string option"
  entity_group :: "string option"
  start :: "int option"
  end_offset :: "int option"
  score :: "rat option"

datatype other_entry = OtherEntry (o_word: string) (o_type: string) (confidence: rat)

text \<open>The dict \<^verbatim>\<open>medical_entities\<close> with its five fixed keys.\<close>

record categorized =
  diseases :: "string list"
  medications :: "string list"
  symptoms :: "string list"
  procedures :: "string list"
  other :: "other_entry list"

datatype bucket = Diseases | Medications | Symptoms | Procedures

definition empty_entities :: categorized where
  "empty_entities =
     \<lparr>diseases = [], medications = [], symptoms = [], procedures = [], other = []\<rparr>"

fun bucket_of :: "bucket \<Rightarrow> categorized \<Rightarrow> string list" where
  "bucket_of Diseases m = diseases m"
| "bucket_of Medications m = medications m"
| "bucket_of Symptoms m = symptoms m"
| "bucket_of Procedures m = procedures m"

fun bucket_append :: "bucket \<Rightarrow> string \<Rightarrow> categorized \<Rightarrow> categorized" where
  "bucket_append Diseases w m = m\<lparr>diseases := diseases m @ [w]\<rparr>"
| "bucket_append Medications w m = m\<lparr>medications := medications m @ [w]\<rparr>"
| "bucket_append Symptoms w m = m\<lparr>symptoms := symptoms m @ [w]\<rparr>"
| "bucket_append Procedures w m = m\<lparr>procedures := procedures m @ [w]\<rparr>"

section \<open>Python string primitives\<close>

text \<open>
  \<^verbatim>\<open>str.strip()\<close> removes the characters for which \<^verbatim>\<open>str.isspace\<close> holds; below
  code point 256 these are 9 to 13, 28 to 32, 133 and 160.
\<close>

definition isspace :: "char \<Rightarrow> bool" where
  "isspace c =
     (let n = (of_char c :: nat)
      in (9 \<le> n \<and> n \<le> 13) \<or> (28 \<le> n \<and> n \<le> 32) \<or> n = 133 \<or> n = 160)"

definition rstrip_with :: "(char \<Rightarrow> bool) \<Rightarrow> string \<Rightarrow> string" where
  "rstrip_with p s = rev (dropWhile p (rev s))"

definition strip :: "string \<Rightarrow> string" where
  "strip s = rstrip_with isspace (dropWhile isspace s)"

definition rstrip :: "string \<Rightarrow> string \<Rightarrow> string" where
  "rstrip chars s = rstrip_with (\<lambda>c. c \<in> set chars) s"

definition punctuation :: string where
  "punctuation = ''.,;:!?''"

text \<open>
  \<^verbatim>\<open>s[i:j]\<close> for integers: a negative index counts from the end, and both indices are
  clamped into \<open>[0, len s]\<close>; the slice is empty when the bounds cross. It never raises.
\<close>

definition slice_index :: "nat \<Rightarrow> int \<Rightarrow> nat" where
  "slice_index n k = (if k < 0 then nat (max (k + int n) 0) else min (nat k) n)"

definition py_slice :: "string \<Rightarrow> int \<Rightarrow> int \<Rightarrow> string" where
  "py_slice s i j =
     (let a = slice_index (length s) i; b = slice_index (length s) j
      in take (b - a) (drop a s))"

text \<open>\<^verbatim>\<open>key in label\<close> on strings: \<open>key\<close> occurs as a contiguous substring.\<close>

fun is_prefix :: "string \<Rightarrow> string \<Rightarrow> bool" where
  "is_prefix [] ys = True"
| "is_prefix (x # xs) [] = False"
| "is_prefix (x # xs) (y # ys) = (x = y \<and> is_prefix xs ys)"

fun contains :: "string \<Rightarrow> string \<Rightarrow> bool" where
  "contains [] key = (key = [])"
| "contains (c # cs) key = (is_prefix key (c # cs) \<or> contains cs key)"

text \<open>\<^verbatim>\<open>str(n)\<close> for an integer, as an f-string renders a status code.\<close>

definition digit :: "nat \<Rightarrow> char" where
  "digit d = char_of (48 + d)"

function str_nat :: "nat \<Rightarrow> string" where
  "str_nat n = (if n < 10 then [digit n] else str_nat (n div 10) @ [digit (n mod 10)])"
  by pat_completeness auto
termination
  by (relation "measure id") auto

declare str_nat.simps [simp del]

definition str_int :: "int \<Rightarrow> string" where
  "str_int i = (if i < 0 then CHR ''-'' # str_nat (nat (- i)) else str_nat (nat i))"

text \<open>Reading a decimal rendering back, to show that it determines the number.\<close>

definition digit_value :: "char \<Rightarrow> nat" where
  "digit_value c = of_char c - 48"

definition parse_nat :: "string \<Rightarrow> nat" where
  "parse_nat s = foldl (\<lambda>a c. 10 * a + digit_value c) 0 s"

section \<open>Span Reconstructor (\<^verbatim>\<open>MedicalNERHF._reconstruct_entities\<close>)\<close>

definition get_start :: "raw_entity \<Rightarrow> int" where
  "get_start e = (case start e of None \<Rightarrow> 0 | Some s \<Rightarrow> s)"

text \<open>\<^verbatim>\<open>e.get('end', s)\<close> where \<open>s\<close> is the start just read from the same entity.\<close>

definition get_end :: "raw_entity \<Rightarrow> int" where
  "get_end e = (case end_offset e of None \<Rightarrow> get_start e | Some n \<Rightarrow> n)"

text \<open>The inner \<^verbatim>\<open>while j < len(entities)\<close> loop; it returns the final \<open>j\<close> and \<open>end_pos\<close>.\<close>

function scan_forward :: "raw_entity list \<Rightarrow> nat \<Rightarrow> int \<Rightarrow> nat \<times> int" where
  "scan_forward entities j end_pos =
     (if j < length entities then
        (let next_entity = entities ! j;
             next_start = get_start next_entity
         in if next_start \<le> end_pos + 2
            then scan_forward entities (j + 1) (max end_pos (get_end next_entity))
            else (j, end_pos))
      else (j, end_pos))"
  by pat_completeness auto
termination
  by (relation "measure (\<lambda>(entities, j, end_pos). length entities - j)") auto

declare scan_forward.simps [simp del]

text \<open>Lines 77 to 83: the guarded substring assignment to \<^verbatim>\<open>current['word']\<close>.\<close>

definition assign_word :: "string \<Rightarrow> raw_entity \<Rightarrow> int \<Rightarrow> int \<Rightarrow> raw_entity" where
  "assign_word original_text current start_pos end_pos =
     (if start_pos < int (length original_text) \<and> end_pos \<le> int (length original_text)
      then current\<lparr>word :=
             Some (rstrip punctuation (strip (py_slice original_text start_pos end_pos)))\<rparr>
      else current)"

text \<open>The outer \<^verbatim>\<open>while i < len(entities)\<close> loop with its accumulator \<^verbatim>\<open>reconstructed\<close>.\<close>

function reconstruct_loop ::
  "raw_entity list \<Rightarrow> string \<Rightarrow> nat \<Rightarrow> raw_entity list \<Rightarrow> raw_entity list" where
  "reconstruct_loop entities original_text i reconstructed =
     (if i < length entities then
        (let current = entities ! i;
             start_pos = get_start current;
             end_pos = get_end current;
             scanned = scan_forward entities (i + 1) end_pos;
             current' = assign_word original_text current start_pos (snd scanned)
         in reconstruct_loop entities original_text (fst scanned) (reconstructed @ [current']))
      else reconstructed)"
  by pat_completeness auto
termination
proof (relation "measure (\<lambda>(entities, original_text, i, reconstructed). length entities - i)")
  show "wf (measure (\<lambda>(entities, original_text, i, reconstructed). length entities - i))"
    by simp
next
  fix entities :: "raw_entity list" and original_text :: string and i :: nat
    and reconstructed :: "raw_entity list" and current start_pos end_pos scanned current'
  assume "i < length entities" and "current = entities ! i" and "end_pos = get_end current"
    and "scanned = scan_forward entities (i + 1) end_pos"
  moreover have "j \<le> fst (scan_forward es j e)" for es j e
  proof (induction es j e rule: scan_forward.induct)
    case (1 es j e)
    show ?case
    proof (cases "j < length es \<and> get_start (es ! j) \<le> e + 2")
      case True
      with "1.IH" [OF _ refl refl]
      have "j + 1 \<le> fst (scan_forward es (j + 1) (max e (get_end (es ! j))))"
        by simp
      with True show ?thesis
        by (subst scan_forward.simps) simp
    next
      case False
      then show ?thesis
        by (subst scan_forward.simps) auto
    qed
  qed
  then have "i + 1 \<le> fst (scan_forward entities (i + 1) end_pos)" .
  ultimately show "((entities, original_text, fst scanned, reconstructed @ [current']),
      (entities, original_text, i, reconstructed))
    \<in> measure (\<lambda>(entities, original_text, i, reconstructed). length entities - i)"
    by simp
qed

declare reconstruct_loop.simps [simp del]

definition reconstruct_entities :: "raw_entity list \<Rightarrow> string \<Rightarrow> raw_entity list" where
  "reconstruct_entities entities original_text =
     (if entities = [] then entities else reconstruct_loop entities original_text 0 [])"

section \<open>Category Mapper (the \<^verbatim>\<open>for key, value in entity_category_map.items()\<close> loop)\<close>

text \<open>
  The dict literal, as the list of its items in insertion order, which is the order in
  which \<^verbatim>\<open>.items()\<close> yields them. The values name the buckets of the result.
\<close>

definition entity_category_map :: "(string \<times> bucket) list" where
  "entity_category_map =
     [(''DISEASE'', Diseases),
      (''DRUG'', Medications),
      (''SYMPTOM'', Symptoms),
      (''PROCEDURE'', Procedures),
      (''Diagnostic_procedure'', Procedures),
      (''Medication'', Medications),
      (''Sign_symptom'', Symptoms)]"

text \<open>\<^verbatim>\<open>category = None\<close>, then the loop that assigns and breaks at the first hit.\<close>

fun first_match :: "(string \<times> bucket) list \<Rightarrow> string \<Rightarrow> bucket option" where
  "first_match [] label = None"
| "first_match ((key, v) # items) label =
     (if contains label key then Some v else first_match items label)"

definition map_category :: "string \<Rightarrow> bucket option" where
  "map_category label = first_match entity_category_map label"

section \<open>Entity Aggregator (the \<^verbatim>\<open>for entity in ...\<close> loop of both pipelines)\<close>

text \<open>
  The loop body is the same text in \<^verbatim>\<open>MedicalNERHF.process_medical_text\<close> (lines 131 to
  163) and in \<^verbatim>\<open>extract_medical_entities\<close> of app.py (lines 95 to 127), so it is
  modelled once.
\<close>

definition get_word :: "raw_entity \<Rightarrow> string" where
  "get_word e = (case word e of None \<Rightarrow> [] | Some w \<Rightarrow> w)"

text \<open>The local \<^verbatim>\<open>entity_group\<close>, called \<open>label\<close> below:
  \<^verbatim>\<open>entity.get('entity', '') or entity.get('entity_group', '')\<close>\<close>

definition get_group :: "raw_entity \<Rightarrow> string" where
  "get_group e =
     (let a = (case entity e of None \<Rightarrow> [] | Some l \<Rightarrow> l)
      in if a \<noteq> [] then a else (case entity_group e of None \<Rightarrow> [] | Some g \<Rightarrow> g))"

definition get_score :: "raw_entity \<Rightarrow> rat" where
  "get_score e = (case score e of None \<Rightarrow> 0 | Some c \<Rightarrow> c)"

definition clean :: "string \<Rightarrow> string" where
  "clean entity_word = rstrip punctuation (strip entity_word)"

definition categorize_step :: "categorized \<Rightarrow> raw_entity \<Rightarrow> categorized" where
  "categorize_step medical_entities e =
     (let entity_word = get_word e;
          label = get_group e
      in if entity_word = [] \<or> label = [] then medical_entities
         else
           let clean_word = clean entity_word
           in if length clean_word < 2 then medical_entities
              else
                (case map_category label of
                   Some category \<Rightarrow>
                     if clean_word \<notin> set (bucket_of category medical_entities)
                     then bucket_append category clean_word medical_entities
                     else medical_entities
                 | None \<Rightarrow>
                     medical_entities\<lparr>other := other medical_entities @
                       [OtherEntry clean_word label (get_score e)]\<rparr>))"

definition categorize_entities :: "raw_entity list \<Rightarrow> categorized" where
  "categorize_entities entities = foldl categorize_step empty_entities entities"

section \<open>Extraction gateway and the two pipelines\<close>

text \<open>
  What the POST to the inference service yields. The decoded body is null, an array of
  entity objects, or an object (given as its keys with the \<^verbatim>\<open>str\<close> rendering of their
  values); \<^verbatim>\<open>response.json()\<close> may raise instead, and so may the request itself. An
  exception is represented by its message.
\<close>

datatype payload = PNull | PList "raw_entity list" | PDict "(string \<times> string) list"

datatype decoded = JsonRaised string | JsonValue payload

record response =
  status_code :: int
  body_text :: string
  json :: decoded

datatype gateway = PostRaised string | Responded response

text \<open>
  \<^verbatim>\<open>MedicalNERHF.extract_entities\<close>: the lines it prints and the value it returns, where
  \<open>PNull\<close> is Python's \<^verbatim>\<open>None\<close>.
\<close>

definition extract_entities :: "gateway \<Rightarrow> string list \<times> payload" where
  "extract_entities g =
     (case g of
        PostRaised msg \<Rightarrow>
          ([''Sending text to Hugging Face Medical NER API...'',
            ''Error extracting entities: '' @ msg], PNull)
      | Responded r \<Rightarrow>
          if status_code r = 200 then
            (case json r of
               JsonRaised msg \<Rightarrow>
                 ([''Sending text to Hugging Face Medical NER API...'',
                   ''Error extracting entities: '' @ msg], PNull)
             | JsonValue entities \<Rightarrow>
                 ([''Sending text to Hugging Face Medical NER API...'',
                   ''Medical entities extracted successfully!''], entities))
          else
            ([''Sending text to Hugging Face Medical NER API...'',
              ''Error: '' @ str_int (status_code r),
              body_text r], PNull))"

text \<open>\<^verbatim>\<open>MedicalNERHF.process_medical_text\<close>: \<open>Inl\<close> is the dict \<^verbatim>\<open>{"error": message}\<close>.\<close>

definition process_medical_text :: "gateway \<Rightarrow> string \<Rightarrow> string + categorized" where
  "process_medical_text g transcription =
     (case snd (extract_entities g) of
        PNull \<Rightarrow> Inl ''Failed to extract entities - API error''
      | PDict items \<Rightarrow>
          (case map_of items ''error'' of
             Some v \<Rightarrow> Inl (''API Error: '' @ v)
           | None \<Rightarrow> Inl ''Unexpected API response format'')
      | PList raw_entities \<Rightarrow>
          Inr (categorize_entities (reconstruct_entities raw_entities transcription)))"

text \<open>
  \<^verbatim>\<open>extract_medical_entities\<close> of app.py: \<open>Success\<close> is
  \<^verbatim>\<open>{"success": True, "data": ...}\<close>, \<open>Failure\<close> is
  \<^verbatim>\<open>{"success": False, "error": ..., "details": ...}\<close>. Iterating null raises a
  TypeError, iterating a non-empty object yields its keys and \<^verbatim>\<open>.get\<close> on a key raises
  an AttributeError; both are caught by the enclosing \<^verbatim>\<open>except\<close>.
\<close>

datatype app_result = Success categorized | Failure (error: string) (details: string)

definition extract_medical_entities :: "gateway \<Rightarrow> string \<Rightarrow> app_result" where
  "extract_medical_entities g text =
     (case g of
        PostRaised msg \<Rightarrow> Failure ''Failed to extract medical entities'' msg
      | Responded r \<Rightarrow>
          if status_code r = 200 then
            (case json r of
               JsonRaised msg \<Rightarrow> Failure ''Failed to extract medical entities'' msg
             | JsonValue PNull \<Rightarrow>
                 Failure ''Failed to extract medical entities''
                   ([CHR 0x27] @ ''NoneType'' @ [CHR 0x27] @ '' object is not iterable'')
             | JsonValue (PDict items) \<Rightarrow>
                 if items = [] then Success empty_entities
                 else Failure ''Failed to extract medical entities''
                   ([CHR 0x27] @ ''str'' @ [CHR 0x27] @ '' object has no attribute ''
                      @ [CHR 0x27] @ ''get'' @ [CHR 0x27])
             | JsonValue (PList raw_entities) \<Rightarrow> Success (categorize_entities raw_entities))
          else Failure (''Hugging Face API error: '' @ str_int (status_code r)) (body_text r))"

section \<open>Merge groups, as the specification describes them\<close>

text \<open>
  The specification speaks of merge groups: a first fragment followed by the maximal run
  of entities each of which starts at most two characters after the merged end so far.
  These definitions follow those words, on lists instead of indices; the loops above are
  proved equal to them below.
\<close>

fun run_length :: "int \<Rightarrow> raw_entity list \<Rightarrow> nat" where
  "run_length e [] = 0"
| "run_length e (x # xs) =
     (if get_start x \<le> e + 2 then Suc (run_length (max e (get_end x)) xs) else 0)"

fun is_run :: "int \<Rightarrow> raw_entity list \<Rightarrow> bool" where
  "is_run e [] = True"
| "is_run e (x # xs) = (get_start x \<le> e + 2 \<and> is_run (max e (get_end x)) xs)"

fun run_end :: "int \<Rightarrow> raw_entity list \<Rightarrow> int" where
  "run_end e [] = e"
| "run_end e (x # xs) = run_end (max e (get_end x)) xs"

definition group_start :: "raw_entity list \<Rightarrow> int" where
  "group_start g = get_start (hd g)"

definition group_end :: "raw_entity list \<Rightarrow> int" where
  "group_end g = run_end (get_end (hd g)) (tl g)"

function merge_groups :: "raw_entity list \<Rightarrow> raw_entity list list" where
  "merge_groups [] = []"
| "merge_groups (x # xs) =
     (x # take (run_length (get_end x) xs) xs) #
       merge_groups (drop (run_length (get_end x) xs) xs)"
  by pat_completeness auto
termination
  by (relation "measure length") auto

definition rebuild :: "string \<Rightarrow> raw_entity list \<Rightarrow> raw_entity" where
  "rebuild original_text g = assign_word original_text (hd g) (group_start g) (group_end g)"

fun separated :: "raw_entity list list \<Rightarrow> bool" where
  "separated [] = True"
| "separated [g] = True"
| "separated (g # h # gs) = (group_end g + 2 < group_start h \<and> separated (h # gs))"

text \<open>Which entities the aggregator keeps, and the record it files under \<open>other\<close>.\<close>

definition degenerate :: "raw_entity \<Rightarrow> bool" where
  "degenerate e =
     (get_word e = [] \<or> get_group e = [] \<or> length (clean (get_word e)) < 2)"

definition other_record :: "raw_entity \<Rightarrow> other_entry" where
  "other_record e = OtherEntry (clean (get_word e)) (get_group e) (get_score e)"

text \<open>
  Shorthands for concrete inputs: an entity object with the keys word, entity, start, end
  and score, and a 200 response whose body decodes to a list of entities.
\<close>

abbreviation fragment :: "string \<Rightarrow> string \<Rightarrow> int \<Rightarrow> int \<Rightarrow> rat \<Rightarrow> raw_entity" where
  "fragment w l s e c \<equiv>
     \<lparr>word = Some w, entity = Some l, entity_group = None,
      start = Some s, end_offset = Some e, score = Some c\<rparr>"

abbreviation listed :: "string \<Rightarrow> raw_entity list \<Rightarrow> gateway" where
  "listed body raw \<equiv>
     Responded \<lparr>status_code = 200, body_text = body, json = JsonValue (PList raw)\<rparr>"

section \<open>The loops compute the merge groups\<close>

lemma run_length_le: "run_length e xs \<le> length xs"
  by (induction xs arbitrary: e) auto

lemma is_run_take: "is_run e (take (run_length e xs) xs)"
  by (induction xs arbitrary: e) auto

lemma run_length_stop:
  "run_length e xs < length xs \<Longrightarrow>
     run_end e (take (run_length e xs) xs) + 2 < get_start (xs ! run_length e xs)"
  by (induction xs arbitrary: e) auto

lemma scan_forward_drop:
  "j \<le> length es \<Longrightarrow>
     scan_forward es j e =
       (j + run_length e (drop j es), run_end e (take (run_length e (drop j es)) (drop j es)))"
proof (induction es j e rule: scan_forward.induct)
  case (1 es j e)
  show ?case
  proof (cases "j < length es")
    case False
    with "1.prems" show ?thesis
      by (subst scan_forward.simps) simp
  next
    case True
    then have d: "drop j es = es ! j # drop (Suc j) es"
      by (simp add: Cons_nth_drop_Suc)
    show ?thesis
    proof (cases "get_start (es ! j) \<le> e + 2")
      case False
      with True d show ?thesis
        by (subst scan_forward.simps) simp
    next
      case g: True
      from True have "j + 1 \<le> length es" by simp
      from "1.IH" [OF True refl refl g this] True g d show ?thesis
        by (subst scan_forward.simps) (simp add: Let_def)
    qed
  qed
qed

lemma reconstruct_loop_groups:
  "i \<le> length es \<Longrightarrow>
     reconstruct_loop es t i acc = acc @ map (rebuild t) (merge_groups (drop i es))"
proof (induction es t i acc rule: reconstruct_loop.induct)
  case (1 es t i acc)
  show ?case
  proof (cases "i < length es")
    case False
    with "1.prems" show ?thesis
      by (subst reconstruct_loop.simps) simp
  next
    case True
    define x where "x = es ! i"
    define xs where "xs = drop (Suc i) es"
    define n where "n = run_length (get_end x) xs"
    have d: "drop i es = x # xs"
      using True by (simp add: x_def xs_def Cons_nth_drop_Suc)
    have sc: "scan_forward es (i + 1) (get_end x) = (i + 1 + n, run_end (get_end x) (take n xs))"
      using True scan_forward_drop [of "i + 1" es "get_end x"] by (simp add: xs_def n_def)
    have "n \<le> length xs" by (simp add: n_def run_length_le)
    then have le: "i + 1 + n \<le> length es" using True by (simp add: xs_def)
    have dd: "drop n xs = drop (i + 1 + n) es"
      by (simp add: xs_def add.commute)
    have mg: "merge_groups (x # xs) = (x # take n xs) # merge_groups (drop n xs)"
      by (simp add: n_def)
    have rb: "rebuild t (x # take n xs) = assign_word t x (get_start x) (run_end (get_end x) (take n xs))"
      by (simp add: rebuild_def group_start_def group_end_def)
    have "reconstruct_loop es t i acc =
        reconstruct_loop es t (i + 1 + n)
          (acc @ [assign_word t x (get_start x) (run_end (get_end x) (take n xs))])"
      using True sc by (subst reconstruct_loop.simps) (simp add: x_def Let_def)
    also have "\<dots> = (acc @ [assign_word t x (get_start x) (run_end (get_end x) (take n xs))])
        @ map (rebuild t) (merge_groups (drop (i + 1 + n) es))"
      using "1.IH" [OF True refl refl refl refl refl, of ] le sc by (simp add: x_def)
    also have "\<dots> = acc @ map (rebuild t) (merge_groups (drop i es))"
      by (simp only: d mg rb dd list.map append_assoc append.simps)
    finally show ?thesis .
  qed
qed

lemma reconstruct_entities_groups:
  "reconstruct_entities es t = map (rebuild t) (merge_groups es)"
  using reconstruct_loop_groups [of 0 es t "[]"] by (simp add: reconstruct_entities_def)

lemma concat_merge_groups: "concat (merge_groups es) = es"
  by (induction es rule: merge_groups.induct) simp_all

lemma merge_groups_run:
  "g \<in> set (merge_groups es) \<Longrightarrow> g \<noteq> [] \<and> is_run (get_end (hd g)) (tl g)"
  by (induction es rule: merge_groups.induct) (auto simp: is_run_take)

lemma separated_merge_groups: "separated (merge_groups es)"
proof (induction es rule: merge_groups.induct)
  case 1
  show ?case by simp
next
  case (2 x xs)
  define n where "n = run_length (get_end x) xs"
  show ?case
  proof (cases "drop n xs")
    case Nil
    then show ?thesis by (simp add: n_def)
  next
    case (Cons y ys)
    then have lt: "n < length xs" by (cases "n < length xs") auto
    with Cons have y: "y = xs ! n"
      by (metis Cons_nth_drop_Suc list.inject)
    from lt have "run_end (get_end x) (take n xs) + 2 < get_start (xs ! n)"
      unfolding n_def by (rule run_length_stop)
    with "2.IH" Cons y show ?thesis
      by (simp add: n_def [symmetric] group_end_def group_start_def)
  qed
qed

lemma length_py_slice: "length (py_slice s i j) \<le> length s"
  by (simp add: py_slice_def Let_def)

lemma py_slice_in_range:
  "0 \<le> i \<Longrightarrow> i \<le> j \<Longrightarrow> j \<le> int (length s) \<Longrightarrow>
     py_slice s i j = take (nat (j - i)) (drop (nat i) s)"
proof -
  assume h: "0 \<le> i" "i \<le> j" "j \<le> int (length s)"
  then have "slice_index (length s) i = nat i" and "slice_index (length s) j = nat j"
    by (auto simp: slice_index_def)
  moreover from h have "nat j - nat i = nat (j - i)" by linarith
  ultimately show ?thesis by (simp add: py_slice_def)
qed

lemma assign_word_fields:
  "entity (assign_word t x s e) = entity x \<and>
   entity_group (assign_word t x s e) = entity_group x \<and>
   score (assign_word t x s e) = score x \<and>
   start (assign_word t x s e) = start x \<and>
   end_offset (assign_word t x s e) = end_offset x"
  by (simp add: assign_word_def)

section \<open>The rendering of a status code determines it\<close>

lemma digit_value_digit: "d < 10 \<Longrightarrow> digit_value (digit d) = d"
  by (simp add: digit_value_def digit_def)

lemma digit_not_minus: "d < 10 \<Longrightarrow> digit d \<noteq> CHR ''-''"
proof
  assume d: "d < 10" and "digit d = CHR ''-''"
  then have "(of_char (digit d) :: nat) = of_char (CHR ''-'')" by simp
  with d show False by (simp add: digit_def)
qed

lemma parse_nat_str_nat: "parse_nat (str_nat n) = n"
proof (induction n rule: str_nat.induct)
  case (1 n)
  show ?case
  proof (cases "n < 10")
    case True
    then show ?thesis
      by (subst str_nat.simps) (simp add: parse_nat_def digit_value_digit)
  next
    case False
    with "1.IH" have "parse_nat (str_nat (n div 10)) = n div 10" by simp
    with False show ?thesis
      by (subst str_nat.simps) (simp add: parse_nat_def digit_value_digit)
  qed
qed

lemma minus_notin_str_nat: "CHR ''-'' \<notin> set (str_nat n)"
proof (induction n rule: str_nat.induct)
  case (1 n)
  show ?case
  proof (cases "n < 10")
    case True
    then show ?thesis
      using digit_not_minus [of n] by (subst str_nat.simps) auto
  next
    case False
    with "1.IH" have "CHR ''-'' \<notin> set (str_nat (n div 10))" by simp
    moreover have "digit (n mod 10) \<noteq> CHR ''-''" by (rule digit_not_minus) simp
    ultimately show ?thesis using False
      by (subst str_nat.simps) auto
  qed
qed

lemma str_nat_inj: "str_nat a = str_nat b \<Longrightarrow> a = b"
  by (metis parse_nat_str_nat)

lemma str_int_inj: "str_int a = str_int b \<Longrightarrow> a = b"
proof -
  assume eq: "str_int a = str_int b"
  consider "a < 0" "b < 0" | "a < 0" "0 \<le> b" | "0 \<le> a" "b < 0" | "0 \<le> a" "0 \<le> b"
    by linarith
  then show ?thesis
  proof cases
    case 1
    with eq have "str_nat (nat (- a)) = str_nat (nat (- b))" by (simp add: str_int_def)
    then have "nat (- a) = nat (- b)" by (rule str_nat_inj)
    with 1 show ?thesis by simp
  next
    case 2
    with eq have "CHR ''-'' # str_nat (nat (- a)) = str_nat (nat b)" by (simp add: str_int_def)
    then have "CHR ''-'' \<in> set (str_nat (nat b))" by (metis list.set_intros(1))
    then show ?thesis by (simp add: minus_notin_str_nat)
  next
    case 3
    with eq have "str_nat (nat a) = CHR ''-'' # str_nat (nat (- b))" by (simp add: str_int_def)
    then have "CHR ''-'' \<in> set (str_nat (nat a))" by (metis list.set_intros(1))
    then show ?thesis by (simp add: minus_notin_str_nat)
  next
    case 4
    with eq have "str_nat (nat a) = str_nat (nat b)" by (simp add: str_int_def)
    then have "nat a = nat b" by (rule str_nat_inj)
    with 4 show ?thesis by simp
  qed
qed

section \<open>Entity Aggregator: what one entity does to the buckets\<close>

lemma bucket_of_append:
  "bucket_of b (bucket_append c w m) = (if b = c then bucket_of b m @ [w] else bucket_of b m)"
  by (cases b; cases c) simp_all

lemma other_bucket_append: "other (bucket_append c w m) = other m"
  by (cases c) simp_all

lemma bucket_of_other_update: "bucket_of b (m\<lparr>other := x\<rparr>) = bucket_of b m"
  by (cases b) simp_all

lemma categorize_step_degenerate: "degenerate e \<Longrightarrow> categorize_step m e = m"
  by (auto simp: categorize_step_def degenerate_def Let_def)

lemma categorize_step_mapped:
  "\<not> degenerate e \<Longrightarrow> map_category (get_group e) = Some c \<Longrightarrow>
     categorize_step m e =
       (if clean (get_word e) \<in> set (bucket_of c m) then m
        else bucket_append c (clean (get_word e)) m)"
  by (auto simp: categorize_step_def degenerate_def Let_def)

lemma categorize_step_unmapped:
  "\<not> degenerate e \<Longrightarrow> map_category (get_group e) = None \<Longrightarrow>
     categorize_step m e = m\<lparr>other := other m @ [other_record e]\<rparr>"
  by (auto simp: categorize_step_def degenerate_def Let_def other_record_def)

lemma set_bucket_step:
  "set (bucket_of b (categorize_step m e)) =
     set (bucket_of b m) \<union>
       (if \<not> degenerate e \<and> map_category (get_group e) = Some b
        then {clean (get_word e)} else {})"
proof (cases "degenerate e")
  case True
  then show ?thesis by (simp add: categorize_step_degenerate)
next
  case False
  show ?thesis
  proof (cases "map_category (get_group e)")
    case None
    with False show ?thesis
      by (simp add: categorize_step_unmapped bucket_of_other_update)
  next
    case (Some c)
    with False show ?thesis
      by (auto simp: categorize_step_mapped bucket_of_append)
  qed
qed

lemma distinct_bucket_step:
  "distinct (bucket_of b m) \<Longrightarrow> distinct (bucket_of b (categorize_step m e))"
proof (cases "degenerate e")
  case True
  then show "distinct (bucket_of b m) \<Longrightarrow> ?thesis" by (simp add: categorize_step_degenerate)
next
  case False
  assume d: "distinct (bucket_of b m)"
  show ?thesis
  proof (cases "map_category (get_group e)")
    case None
    with False d show ?thesis
      by (simp add: categorize_step_unmapped bucket_of_other_update)
  next
    case (Some c)
    with False d show ?thesis
      by (auto simp: categorize_step_mapped bucket_of_append)
  qed
qed

lemma other_step:
  "other (categorize_step m e) =
     other m @ (if \<not> degenerate e \<and> map_category (get_group e) = None
                then [other_record e] else [])"
proof (cases "degenerate e")
  case True
  then show ?thesis by (simp add: categorize_step_degenerate)
next
  case False
  show ?thesis
  proof (cases "map_category (get_group e)")
    case None
    with False show ?thesis by (simp add: categorize_step_unmapped)
  next
    case (Some c)
    with False show ?thesis
      by (simp add: categorize_step_mapped other_bucket_append)
  qed
qed

lemma set_bucket_foldl:
  "set (bucket_of b (foldl categorize_step m es)) =
     set (bucket_of b m) \<union>
       {clean (get_word e) | e. e \<in> set es \<and> \<not> degenerate e \<and>
          map_category (get_group e) = Some b}"
proof (induction es arbitrary: m)
  case Nil
  then show ?case by simp
next
  case (Cons x xs)
  show ?case
    unfolding foldl_Cons Cons.IH set_bucket_step by auto
qed

lemma distinct_bucket_foldl:
  "distinct (bucket_of b m) \<Longrightarrow> distinct (bucket_of b (foldl categorize_step m es))"
  by (induction es arbitrary: m) (simp_all add: distinct_bucket_step)

lemma other_foldl:
  "other (foldl categorize_step m es) =
     other m @ map other_record
       (filter (\<lambda>e. \<not> degenerate e \<and> map_category (get_group e) = None) es)"
proof (induction es arbitrary: m)
  case Nil
  then show ?case by simp
next
  case (Cons x xs)
  show ?case
    unfolding foldl_Cons Cons.IH other_step by simp
qed

lemma foldl_skip_degenerate:
  "foldl categorize_step m es = foldl categorize_step m (filter (\<lambda>e. \<not> degenerate e) es)"
  by (induction es arbitrary: m) (simp_all add: categorize_step_degenerate)

lemma bucket_of_empty: "bucket_of b empty_entities = []"
  by (cases b) (simp_all add: empty_entities_def)

lemma process_medical_text_list:
  "process_medical_text
     (Responded \<lparr>status_code = 200, body_text = body, json = JsonValue (PList raw)\<rparr>) t =
   Inr (categorize_entities (reconstruct_entities raw t))"
  by (simp add: process_medical_text_def extract_entities_def)

lemma extract_medical_entities_list:
  "extract_medical_entities
     (Responded \<lparr>status_code = 200, body_text = body, json = JsonValue (PList raw)\<rparr>) t =
   Success (categorize_entities raw)"
  by (simp add: extract_medical_entities_def)

section \<open>Category Mapper: first substring match in declared order\<close>

lemma is_prefix_iff: "is_prefix k l \<longleftrightarrow> (\<exists>s. l = k @ s)"
  by (induction k l rule: is_prefix.induct) auto

lemma contains_iff: "contains l k \<longleftrightarrow> (\<exists>p s. l = p @ k @ s)"
proof (induction l)
  case Nil
  then show ?case by auto
next
  case (Cons c cs)
  have "(\<exists>p s. c # cs = p @ k @ s) \<longleftrightarrow> (\<exists>s. c # cs = k @ s) \<or> (\<exists>p s. cs = p @ k @ s)"
  proof
    assume "\<exists>p s. c # cs = p @ k @ s"
    then obtain p s where ps: "c # cs = p @ k @ s" by blast
    show "(\<exists>s. c # cs = k @ s) \<or> (\<exists>p s. cs = p @ k @ s)"
    proof (cases p)
      case Nil
      with ps show ?thesis by auto
    next
      case (Cons a p')
      with ps have "cs = p' @ k @ s" by simp
      then show ?thesis by blast
    qed
  next
    assume "(\<exists>s. c # cs = k @ s) \<or> (\<exists>p s. cs = p @ k @ s)"
    then show "\<exists>p s. c # cs = p @ k @ s"
    proof
      assume "\<exists>s. c # cs = k @ s"
      then obtain s where "c # cs = [] @ k @ s" by auto
      then show ?thesis by blast
    next
      assume "\<exists>p s. cs = p @ k @ s"
      then obtain p s where "c # cs = (c # p) @ k @ s" by auto
      then show ?thesis by blast
    qed
  qed
  with Cons show ?case by (simp add: is_prefix_iff)
qed

lemma first_match_None_iff:
  "first_match items l = None \<longleftrightarrow> (\<forall>i<length items. \<not> contains l (fst (items ! i)))"
proof (induction items)
  case Nil
  then show ?case by simp
next
  case (Cons kv items)
  obtain k v where kv: "kv = (k, v)" by (cases kv)
  show ?case
    using Cons by (auto simp: kv All_less_Suc2 nth_Cons split: nat.splits)
qed

lemma first_match_Some_iff:
  "first_match items l = Some b \<longleftrightarrow>
     (\<exists>i<length items. contains l (fst (items ! i)) \<and> snd (items ! i) = b \<and>
        (\<forall>j<i. \<not> contains l (fst (items ! j))))"
proof (induction items)
  case Nil
  then show ?case by simp
next
  case (Cons kv items)
  obtain k v where kv: "kv = (k, v)" by (cases kv)
  show ?case
  proof (cases "contains l k")
    case True
    have "(\<exists>i<length (kv # items). contains l (fst ((kv # items) ! i)) \<and>
        snd ((kv # items) ! i) = b \<and> (\<forall>j<i. \<not> contains l (fst ((kv # items) ! j)))) \<longleftrightarrow> v = b"
    proof
      assume "\<exists>i<length (kv # items). contains l (fst ((kv # items) ! i)) \<and>
        snd ((kv # items) ! i) = b \<and> (\<forall>j<i. \<not> contains l (fst ((kv # items) ! j)))"
      then obtain i where i: "snd ((kv # items) ! i) = b"
        "\<forall>j<i. \<not> contains l (fst ((kv # items) ! j))" by blast
      from i(2) True kv have "i = 0" by (cases i) auto
      with i(1) kv show "v = b" by simp
    next
      assume "v = b"
      with True kv show "\<exists>i<length (kv # items). contains l (fst ((kv # items) ! i)) \<and>
        snd ((kv # items) ! i) = b \<and> (\<forall>j<i. \<not> contains l (fst ((kv # items) ! j)))"
        by (intro exI [of _ 0]) simp
    qed
    with True kv show ?thesis by simp
  next
    case False
    have "(\<exists>i<length (kv # items). contains l (fst ((kv # items) ! i)) \<and>
        snd ((kv # items) ! i) = b \<and> (\<forall>j<i. \<not> contains l (fst ((kv # items) ! j)))) \<longleftrightarrow>
      (\<exists>i<length items. contains l (fst (items ! i)) \<and> snd (items ! i) = b \<and>
        (\<forall>j<i. \<not> contains l (fst (items ! j))))" (is "?L \<longleftrightarrow> ?R")
    proof
      assume ?L
      then obtain i where i: "i < length (kv # items)" "contains l (fst ((kv # items) ! i))"
        "snd ((kv # items) ! i) = b" "\<forall>j<i. \<not> contains l (fst ((kv # items) ! j))" by blast
      from i(2) False kv obtain i' where i': "i = Suc i'" by (cases i) auto
      from i(4) i' have "\<forall>j<i'. \<not> contains l (fst (items ! j))" by auto
      with i i' show ?R by auto
    next
      assume ?R
      then obtain i where i: "i < length items" "contains l (fst (items ! i))"
        "snd (items ! i) = b" "\<forall>j<i. \<not> contains l (fst (items ! j))" by blast
      from i(4) False kv have "\<forall>j<Suc i. \<not> contains l (fst ((kv # items) ! j))"
        by (auto simp: nth_Cons split: nat.splits)
      with i show ?L by (intro exI [of _ "Suc i"]) simp
    qed
    with False kv Cons show ?thesis by simp
  qed
qed

text \<open>
  Claim C7. The Category Mapper walks the CategoryMap in its declared order (DISEASE to
  diseases, DRUG to medications, SYMPTOM to symptoms, PROCEDURE to procedures,
  Diagnostic_procedure to procedures, Medication to medications, Sign_symptom to
  symptoms) and returns the bucket of the first key that occurs as a substring of the
  label, or nothing when no key occurs; the label "Sign_symptom" maps to symptoms and
  "B-DISEASE" to diseases.
\<close>

theorem category_mapper_first_substring_match:
  "entity_category_map =
     [(''DISEASE'', Diseases), (''DRUG'', Medications), (''SYMPTOM'', Symptoms),
      (''PROCEDURE'', Procedures), (''Diagnostic_procedure'', Procedures),
      (''Medication'', Medications), (''Sign_symptom'', Symptoms)]
   \<and> (contains label key \<longleftrightarrow> (\<exists>p s. label = p @ key @ s))
   \<and> (map_category label = Some b \<longleftrightarrow>
        (\<exists>i<length entity_category_map.
           contains label (fst (entity_category_map ! i)) \<and>
           snd (entity_category_map ! i) = b \<and>
           (\<forall>j<i. \<not> contains label (fst (entity_category_map ! j)))))
   \<and> (map_category label = None \<longleftrightarrow>
        (\<forall>i<length entity_category_map. \<not> contains label (fst (entity_category_map ! i))))
   \<and> map_category ''Sign_symptom'' = Some Symptoms
   \<and> map_category ''B-DISEASE'' = Some Diseases"
proof -
  have "map_category ''Sign_symptom'' = Some Symptoms"
    by (simp add: map_category_def entity_category_map_def)
  moreover have "map_category ''B-DISEASE'' = Some Diseases"
    by (simp add: map_category_def entity_category_map_def)
  ultimately show ?thesis
    unfolding map_category_def first_match_Some_iff first_match_None_iff contains_iff
    by (simp add: entity_category_map_def)
qed

theorem category_mapper_witness:
  "map_category ''B-DISEASE'' = Some Diseases \<and>
   (\<exists>i<length entity_category_map.
      contains ''B-DISEASE'' (fst (entity_category_map ! i)) \<and>
      snd (entity_category_map ! i) = Diseases \<and>
      \<not> (\<exists>j<i. contains ''B-DISEASE'' (fst (entity_category_map ! j)))) \<and>
   map_category ''MISC'' = None \<and>
   \<not> (\<exists>i<length entity_category_map. contains ''MISC'' (fst (entity_category_map ! i)))"
proof -
  note a = category_mapper_first_substring_match [of "''B-DISEASE''" "''DISEASE''" Diseases]
  note b = category_mapper_first_substring_match [of "''MISC''" "''DISEASE''" Diseases]
  have m: "map_category ''MISC'' = None"
    by (simp add: map_category_def entity_category_map_def)
  from a have 1: "map_category ''B-DISEASE'' = Some Diseases" by blast
  from a 1 have 2: "\<exists>i<length entity_category_map.
      contains ''B-DISEASE'' (fst (entity_category_map ! i)) \<and>
      snd (entity_category_map ! i) = Diseases \<and>
      \<not> (\<exists>j<i. contains ''B-DISEASE'' (fst (entity_category_map ! j)))" by blast
  from b m have 3: "\<not> (\<exists>i<length entity_category_map.
      contains ''MISC'' (fst (entity_category_map ! i)))"
    by blast
  from 1 2 3 m show ?thesis by blast
qed

section \<open>Entity Aggregator: the claims\<close>

text \<open>
  Claim C8. For every transcript and raw entity list, each of the four named buckets of
  the final result holds each term at most once: a cleaned word that equals an entry
  already in its bucket is not appended again. Records filed under \<open>other\<close> are never
  deduplicated: \<open>other\<close> holds one record per unmapped, non-degenerate entity, in order.
\<close>

theorem named_buckets_unique_other_not_deduplicated:
  "\<exists>r. process_medical_text (listed body raw) t = Inr r
     \<and> distinct (diseases r) \<and> distinct (medications r)
     \<and> distinct (symptoms r) \<and> distinct (procedures r)
     \<and> other r = map other_record
          (filter (\<lambda>e. \<not> degenerate e \<and> map_category (get_group e) = None)
             (reconstruct_entities raw t))
     \<and> (\<not> degenerate e \<and> map_category (get_group e) = Some c \<and>
          clean (get_word e) \<in> set (bucket_of c m) \<longrightarrow> categorize_step m e = m)
     \<and> (\<not> degenerate e \<and> map_category (get_group e) = None \<longrightarrow>
          other (categorize_step m e) = other m @ [other_record e])"
proof -
  define r where "r = categorize_entities (reconstruct_entities raw t)"
  have d: "distinct (bucket_of b r)" for b
    unfolding r_def categorize_entities_def
    by (rule distinct_bucket_foldl) (simp add: bucket_of_empty)
  have "process_medical_text (listed body raw) t = Inr r"
    by (simp add: r_def process_medical_text_list)
  moreover have "distinct (diseases r)" using d [of Diseases] by simp
  moreover have "distinct (medications r)" using d [of Medications] by simp
  moreover have "distinct (symptoms r)" using d [of Symptoms] by simp
  moreover have "distinct (procedures r)" using d [of Procedures] by simp
  moreover have "other r = map other_record
      (filter (\<lambda>e. \<not> degenerate e \<and> map_category (get_group e) = None)
         (reconstruct_entities raw t))"
    by (simp add: r_def categorize_entities_def other_foldl empty_entities_def)
  moreover have "\<not> degenerate e \<and> map_category (get_group e) = Some c \<and>
      clean (get_word e) \<in> set (bucket_of c m) \<longrightarrow> categorize_step m e = m"
    by (simp add: categorize_step_mapped)
  moreover have "\<not> degenerate e \<and> map_category (get_group e) = None \<longrightarrow>
      other (categorize_step m e) = other m @ [other_record e]"
    by (simp add: other_step)
  ultimately show ?thesis by blast
qed

theorem named_buckets_unique_witness:
  "\<exists>r. process_medical_text
         (listed ''[]''
            [fragment ''flu'' ''DISEASE'' 0 3 (9/10), fragment ''flu'' ''DISEASE'' 8 11 (9/10),
             fragment ''mri'' ''MISC'' 16 19 (1/2), fragment ''mri'' ''MISC'' 24 27 (1/2)])
         ''flu and flu and mri and mri'' = Inr r
     \<and> diseases r = [''flu''] \<and> distinct (diseases r)
     \<and> other r = [OtherEntry ''mri'' ''MISC'' (1/2), OtherEntry ''mri'' ''MISC'' (1/2)]"
proof -
  let ?raw = "[fragment ''flu'' ''DISEASE'' 0 3 (9/10), fragment ''flu'' ''DISEASE'' 8 11 (9/10),
             fragment ''mri'' ''MISC'' 16 19 (1/2), fragment ''mri'' ''MISC'' 24 27 (1/2)]"
  let ?t = "''flu and flu and mri and mri''"
  from named_buckets_unique_other_not_deduplicated [of "''[]''" ?raw ?t]
  obtain r where r: "process_medical_text (listed ''[]'' ?raw) ?t = Inr r"
    and d: "distinct (diseases r)" by blast
  have "process_medical_text (listed ''[]'' ?raw) ?t =
      Inr \<lparr>diseases = [''flu''], medications = [], symptoms = [], procedures = [],
           other = [OtherEntry ''mri'' ''MISC'' (1/2), OtherEntry ''mri'' ''MISC'' (1/2)]\<rparr>"
    by code_simp
  with r have "r = \<lparr>diseases = [''flu''], medications = [], symptoms = [], procedures = [],
           other = [OtherEntry ''mri'' ''MISC'' (1/2), OtherEntry ''mri'' ''MISC'' (1/2)]\<rparr>"
    by simp
  with r d show ?thesis by simp
qed

text \<open>
  Claim C9. An entity whose word is missing or empty, or whose entity and entity_group
  are both missing or empty, or whose cleaned word (whitespace stripped, then trailing
  punctuation stripped) is shorter than two characters, leaves every bucket as it was:
  the aggregator's result is the same as if the entity were not in the list. The loop
  body has no failing operation, so nothing is raised.
\<close>

theorem degenerate_entity_dropped:
  assumes "word e = None \<or> word e = Some []
     \<or> ((entity e = None \<or> entity e = Some []) \<and>
         (entity_group e = None \<or> entity_group e = Some []))
     \<or> length (rstrip punctuation (strip (get_word e))) < 2"
  shows "categorize_step m e = m
     \<and> categorize_entities (xs @ e # ys) = categorize_entities (xs @ ys)"
proof -
  from assms have "degenerate e"
    by (auto simp: degenerate_def get_word_def get_group_def clean_def)
  then have "categorize_step m e = m" for m
    by (rule categorize_step_degenerate)
  then show ?thesis
    by (simp add: categorize_entities_def)
qed

theorem degenerate_entity_dropped_witness:
  "length (rstrip punctuation (strip (get_word (fragment '' a. '' ''DISEASE'' 0 4 1)))) < 2
   \<and> categorize_step empty_entities (fragment '' a. '' ''DISEASE'' 0 4 1) = empty_entities
   \<and> categorize_entities
       [fragment ''flu'' ''DISEASE'' 0 3 1, fragment '' a. '' ''DISEASE'' 0 4 1,
        fragment ''mri'' ''MISC'' 16 19 1] =
     categorize_entities [fragment ''flu'' ''DISEASE'' 0 3 1, fragment ''mri'' ''MISC'' 16 19 1]"
proof -
  have h: "length (rstrip punctuation (strip (get_word (fragment '' a. '' ''DISEASE'' 0 4 1)))) < 2"
    by code_simp
  from h degenerate_entity_dropped [of "fragment '' a. '' ''DISEASE'' 0 4 1" empty_entities
      "[fragment ''flu'' ''DISEASE'' 0 3 1]" "[fragment ''mri'' ''MISC'' 16 19 1]"]
  show ?thesis by simp
qed

text \<open>
  Claim C10. When the gateway answers 200 with the empty list, \<open>process_medical_text\<close>
  returns a successful result whose five buckets are all empty; the empty list is
  neither a failure nor a malformed payload.
\<close>

theorem empty_entity_list_is_success:
  "extract_entities (listed body []) =
     ([''Sending text to Hugging Face Medical NER API...'',
       ''Medical entities extracted successfully!''], PList [])
   \<and> reconstruct_entities [] t = []
   \<and> process_medical_text (listed body []) t =
       Inr \<lparr>diseases = [], medications = [], symptoms = [], procedures = [], other = []\<rparr>"
  by (simp add: process_medical_text_def extract_entities_def reconstruct_entities_def
      categorize_entities_def empty_entities_def)


theorem empty_entity_list_witness:
  "process_medical_text (listed ''[]'' []) ''No findings.'' =
     Inr \<lparr>diseases = [], medications = [], symptoms = [], procedures = [], other = []\<rparr>"
  using empty_entity_list_is_success [of "''[]''" "''No findings.''"] by blast

text \<open>
  Claim C4, as stated: no term appears in more than one of the four named buckets. The
  aggregator deduplicates within a bucket only; two entities with the same word and
  labels that map to different buckets put the word into both.
\<close>

theorem term_in_two_buckets_counterexample:
  "process_medical_text
     (listed ''[]''
        [fragment ''aspirin'' ''DRUG'' 0 7 (9/10), fragment ''aspirin'' ''DISEASE'' 12 19 (8/10)])
     ''aspirin and aspirin'' =
   Inr \<lparr>diseases = [''aspirin''], medications = [''aspirin''], symptoms = [],
        procedures = [], other = []\<rparr>"
  by code_simp

text \<open>
  Claim C4, amended. A term is in a named bucket exactly when some reconstructed entity
  that passes the filters has that cleaned word and a label mapped to that bucket. So no
  term is in two named buckets whenever all such entities with equal cleaned words map to
  the same bucket; nothing in the aggregator keeps a term out of a second bucket
  otherwise.
\<close>

theorem bucket_membership_by_label:
  "\<exists>r. process_medical_text (listed body raw) t = Inr r
     \<and> (\<forall>w b. w \<in> set (bucket_of b r) \<longleftrightarrow>
           (\<exists>e\<in>set (reconstruct_entities raw t).
              \<not> degenerate e \<and> clean (get_word e) = w \<and> map_category (get_group e) = Some b))
     \<and> ((\<forall>e\<in>set (reconstruct_entities raw t). \<forall>e'\<in>set (reconstruct_entities raw t).
            \<not> degenerate e \<and> \<not> degenerate e' \<and> clean (get_word e) = clean (get_word e')
              \<longrightarrow> map_category (get_group e) = map_category (get_group e'))
          \<longrightarrow> (\<forall>b b'. b \<noteq> b' \<longrightarrow> set (bucket_of b r) \<inter> set (bucket_of b' r) = {}))"
proof -
  define es where "es = reconstruct_entities raw t"
  define r where "r = categorize_entities es"
  have p: "process_medical_text (listed body raw) t = Inr r"
    by (simp add: r_def es_def process_medical_text_list)
  have m: "w \<in> set (bucket_of b r) \<longleftrightarrow>
      (\<exists>e\<in>set es. \<not> degenerate e \<and> clean (get_word e) = w \<and>
         map_category (get_group e) = Some b)" for w b
    unfolding r_def categorize_entities_def set_bucket_foldl
    by (auto simp: bucket_of_empty)
  have "set (bucket_of b r) \<inter> set (bucket_of b' r) = {}"
    if agree: "\<forall>e\<in>set es. \<forall>e'\<in>set es.
        \<not> degenerate e \<and> \<not> degenerate e' \<and> clean (get_word e) = clean (get_word e')
          \<longrightarrow> map_category (get_group e) = map_category (get_group e')"
      and ne: "b \<noteq> b'" for b b'
  proof (rule ccontr)
    assume "set (bucket_of b r) \<inter> set (bucket_of b' r) \<noteq> {}"
    then obtain w where "w \<in> set (bucket_of b r)" "w \<in> set (bucket_of b' r)" by blast
    with m obtain e e' where "e \<in> set es" "\<not> degenerate e" "clean (get_word e) = w"
        "map_category (get_group e) = Some b"
        "e' \<in> set es" "\<not> degenerate e'" "clean (get_word e') = w"
        "map_category (get_group e') = Some b'"
      by blast
    with agree have "Some b = Some b'" by metis
    with ne show False by simp
  qed
  with p m show ?thesis unfolding es_def by blast
qed

theorem bucket_membership_witness:
  "\<exists>r. process_medical_text
         (listed ''[]''
            [fragment ''aspirin'' ''DRUG'' 0 7 (9/10), fragment ''flu'' ''DISEASE'' 12 15 (8/10)])
         ''aspirin for flu'' = Inr r
     \<and> set (diseases r) \<inter> set (medications r) = {}
     \<and> ''flu'' \<in> set (diseases r)"
proof -
  let ?raw = "[fragment ''aspirin'' ''DRUG'' 0 7 (9/10), fragment ''flu'' ''DISEASE'' 12 15 (8/10)]"
  let ?t = "''aspirin for flu''"
  have rc: "reconstruct_entities ?raw ?t = ?raw"
    by code_simp
  have d1: "\<not> degenerate (fragment ''aspirin'' ''DRUG'' 0 7 (9/10))" by code_simp
  have d2: "\<not> degenerate (fragment ''flu'' ''DISEASE'' 12 15 (8/10))" by code_simp
  have c2: "clean (get_word (fragment ''flu'' ''DISEASE'' 12 15 (8/10))) = ''flu''" by code_simp
  have m2: "map_category (get_group (fragment ''flu'' ''DISEASE'' 12 15 (8/10))) = Some Diseases"
    by code_simp
  have agree: "\<forall>e\<in>set (reconstruct_entities ?raw ?t). \<forall>e'\<in>set (reconstruct_entities ?raw ?t).
            \<not> degenerate e \<and> \<not> degenerate e' \<and> clean (get_word e) = clean (get_word e')
              \<longrightarrow> map_category (get_group e) = map_category (get_group e')"
    by code_simp
  from bucket_membership_by_label [of "''[]''" ?raw ?t]
  obtain r where r: "process_medical_text (listed ''[]'' ?raw) ?t = Inr r"
    and mem: "\<forall>w b. w \<in> set (bucket_of b r) \<longleftrightarrow>
           (\<exists>e\<in>set (reconstruct_entities ?raw ?t).
              \<not> degenerate e \<and> clean (get_word e) = w \<and> map_category (get_group e) = Some b)"
    and dis: "(\<forall>e\<in>set (reconstruct_entities ?raw ?t). \<forall>e'\<in>set (reconstruct_entities ?raw ?t).
            \<not> degenerate e \<and> \<not> degenerate e' \<and> clean (get_word e) = clean (get_word e')
              \<longrightarrow> map_category (get_group e) = map_category (get_group e'))
          \<longrightarrow> (\<forall>b b'. b \<noteq> b' \<longrightarrow> set (bucket_of b r) \<inter> set (bucket_of b' r) = {})"
    by blast
  from dis agree have "set (bucket_of Diseases r) \<inter> set (bucket_of Medications r) = {}"
    by blast
  moreover from mem [rule_format, of "''flu''" Diseases] rc d2 c2 m2
  have "''flu'' \<in> set (bucket_of Diseases r)" by simp
  ultimately show ?thesis using r by auto
qed

section \<open>The two pipelines\<close>

text \<open>
  Claim C1 says that \<open>extract_medical_entities\<close> of app.py yields the same buckets as
  \<open>process_medical_text\<close>, which reconstructs spans before it categorizes. app.py
  categorizes the raw list as it is; on two fragments of one word the results differ.
\<close>

theorem app_pipeline_skips_reconstruction:
  "extract_medical_entities
     (listed ''[]''
        [fragment ''hyper'' ''DISEASE'' 12 17 (9/10), fragment ''tension'' ''DISEASE'' 17 24 (8/10)])
     ''Patient has hypertension today.'' =
   Success \<lparr>diseases = [''hyper'', ''tension''], medications = [], symptoms = [],
            procedures = [], other = []\<rparr>
   \<and> process_medical_text
     (listed ''[]''
        [fragment ''hyper'' ''DISEASE'' 12 17 (9/10), fragment ''tension'' ''DISEASE'' 17 24 (8/10)])
     ''Patient has hypertension today.'' =
   Inr \<lparr>diseases = [''hypertension''], medications = [], symptoms = [],
        procedures = [], other = []\<rparr>"
  by code_simp

text \<open>
  Claim C2, as stated: for the fragments "hyper" (20 to 25) and "tension" (25 to 32) over
  "Patient has hypertension today." the merged entity's word is "hypertension" and
  diseases is ["hypertension"]. The text has 31 characters and the word sits at 12 to 24.
\<close>

theorem scenario_one_counterexample:
  "map word (reconstruct_entities
        [fragment ''hyper'' ''DISEASE'' 20 25 (9/10), fragment ''tension'' ''DISEASE'' 25 32 (8/10)]
        ''Patient has hypertension today.'') \<noteq> [Some ''hypertension'']
   \<and> process_medical_text
     (listed ''[]''
        [fragment ''hyper'' ''DISEASE'' 20 25 (9/10), fragment ''tension'' ''DISEASE'' 25 32 (8/10)])
     ''Patient has hypertension today.'' \<noteq>
   Inr \<lparr>diseases = [''hypertension''], medications = [], symptoms = [],
        procedures = [], other = []\<rparr>"
  by code_simp

text \<open>
  Claim C2, amended. For that input the two fragments merge into one group spanning 20 to
  32; the end lies past the 31 characters of the text, so the first fragment keeps its
  word "hyper" and diseases is ["hyper"]. With the offsets at which the fragments occur
  in the text (12 to 17 and 17 to 24) the merged entity's word is "hypertension" and
  diseases is ["hypertension"].
\<close>

theorem scenario_one_as_computed:
  "length ''Patient has hypertension today.'' = 31
   \<and> reconstruct_entities
        [fragment ''hyper'' ''DISEASE'' 20 25 (9/10), fragment ''tension'' ''DISEASE'' 25 32 (8/10)]
        ''Patient has hypertension today.'' = [fragment ''hyper'' ''DISEASE'' 20 25 (9/10)]
   \<and> process_medical_text
     (listed ''[]''
        [fragment ''hyper'' ''DISEASE'' 20 25 (9/10), fragment ''tension'' ''DISEASE'' 25 32 (8/10)])
     ''Patient has hypertension today.'' =
   Inr \<lparr>diseases = [''hyper''], medications = [], symptoms = [], procedures = [], other = []\<rparr>
   \<and> reconstruct_entities
        [fragment ''hyper'' ''DISEASE'' 12 17 (9/10), fragment ''tension'' ''DISEASE'' 17 24 (8/10)]
        ''Patient has hypertension today.'' = [fragment ''hypertension'' ''DISEASE'' 12 17 (9/10)]
   \<and> process_medical_text
     (listed ''[]''
        [fragment ''hyper'' ''DISEASE'' 12 17 (9/10), fragment ''tension'' ''DISEASE'' 17 24 (8/10)])
     ''Patient has hypertension today.'' =
   Inr \<lparr>diseases = [''hypertension''], medications = [], symptoms = [],
        procedures = [], other = []\<rparr>"
  by code_simp

text \<open>
  Claim C5, as stated: on a non-200 answer of the extraction gateway the core returns a
  failure value that carries the upstream status code and the raw body. The value
  \<open>process_medical_text\<close> returns is the same for any two such answers.
\<close>

theorem upstream_failure_counterexample:
  "process_medical_text
     (Responded \<lparr>status_code = 503, body_text = ''Service Unavailable'',
                 json = JsonRaised ''Expecting value''\<rparr>) ''fever'' =
   process_medical_text
     (Responded \<lparr>status_code = 429, body_text = ''Too Many Requests'',
                 json = JsonRaised ''Expecting value''\<rparr>) ''fever''"
  by (simp add: process_medical_text_def extract_entities_def)

text \<open>
  Claim C5, amended. On every non-200 answer the aggregator does not run and
  \<open>process_medical_text\<close> returns the failure \<^verbatim>\<open>{"error": "Failed to extract entities - API error"}\<close>,
  which is not a bucket structure; \<open>extract_entities\<close> prints the status code and
  the raw body and returns \<^verbatim>\<open>None\<close>, so neither is part of the returned value. The
  failure of \<open>extract_medical_entities\<close> in app.py does carry both: its error is the
  rendered status code after a fixed prefix, which determines the code, and its details
  are the raw body.
\<close>

theorem upstream_failure_reported:
  assumes "status_code r \<noteq> 200"
  shows "process_medical_text (Responded r) t = Inl ''Failed to extract entities - API error''
     \<and> extract_entities (Responded r) =
         ([''Sending text to Hugging Face Medical NER API...'',
           ''Error: '' @ str_int (status_code r), body_text r], PNull)
     \<and> extract_medical_entities (Responded r) t =
         Failure (''Hugging Face API error: '' @ str_int (status_code r)) (body_text r)
     \<and> (str_int (status_code r) = str_int n \<longleftrightarrow> status_code r = n)"
  using assms
  by (auto simp: process_medical_text_def extract_entities_def extract_medical_entities_def
      dest: str_int_inj)

theorem upstream_failure_witness:
  "process_medical_text
     (Responded \<lparr>status_code = 503, body_text = ''Service Unavailable'',
                 json = JsonRaised ''Expecting value''\<rparr>) ''fever'' =
     Inl ''Failed to extract entities - API error''
   \<and> fst (extract_entities
     (Responded \<lparr>status_code = 503, body_text = ''Service Unavailable'',
                 json = JsonRaised ''Expecting value''\<rparr>)) =
       [''Sending text to Hugging Face Medical NER API...'', ''Error: 503'',
        ''Service Unavailable'']
   \<and> extract_medical_entities
     (Responded \<lparr>status_code = 503, body_text = ''Service Unavailable'',
                 json = JsonRaised ''Expecting value''\<rparr>) ''fever'' =
     Failure ''Hugging Face API error: 503'' ''Service Unavailable''"
proof -
  let ?r = "\<lparr>status_code = 503, body_text = ''Service Unavailable'',
             json = JsonRaised ''Expecting value''\<rparr>"
  have h: "status_code ?r \<noteq> 200" by simp
  have s: "str_int 503 = ''503''" by code_simp
  from upstream_failure_reported [OF h, of "''fever''" 503] s
  show ?thesis by simp
qed

section \<open>Span Reconstructor: the claims\<close>

text \<open>
  Claim C3, as stated: whenever a group's start or end falls outside
  \<open>[0, len(original_text)]\<close> the first fragment's word is kept. The guard only bounds
  the offsets from above; a negative start passes it and the slice counts from the end
  of the text.
\<close>

theorem negative_offset_counterexample:
  "reconstruct_entities [fragment ''zz'' ''DISEASE'' (- 2) 3 1] ''abc'' =
     [fragment ''bc'' ''DISEASE'' (- 2) 3 1]"
  by code_simp

text \<open>
  Claim C3, amended. The output has one entity per merge group, and whenever a group's
  start is at or past the end of the text, or its merged end is past the end of the
  text, the output entity is the group's first fragment unchanged. A slice is defined
  for all integer offsets (it is a piece of the text), so no offsets make the
  reconstruction fail.
\<close>

theorem offsets_past_text_keep_word:
  "length (reconstruct_entities es t) = length (merge_groups es)
   \<and> (\<forall>k<length (merge_groups es).
        int (length t) \<le> group_start (merge_groups es ! k) \<or>
        int (length t) < group_end (merge_groups es ! k)
        \<longrightarrow> reconstruct_entities es t ! k = hd (merge_groups es ! k))
   \<and> length (py_slice t i j) \<le> length t"
proof -
  have "reconstruct_entities es t ! k = hd (merge_groups es ! k)"
    if "k < length (merge_groups es)"
      and "int (length t) \<le> group_start (merge_groups es ! k) \<or>
        int (length t) < group_end (merge_groups es ! k)" for k
    using that by (auto simp: reconstruct_entities_groups rebuild_def assign_word_def)
  then show ?thesis
    by (simp add: reconstruct_entities_groups length_py_slice)
qed

theorem offsets_past_text_witness:
  "merge_groups
     [fragment ''hyper'' ''DISEASE'' 20 25 (9/10), fragment ''tension'' ''DISEASE'' 25 32 (8/10)] =
     [[fragment ''hyper'' ''DISEASE'' 20 25 (9/10), fragment ''tension'' ''DISEASE'' 25 32 (8/10)]]
   \<and> int (length ''Patient has hypertension today.'') < 32
   \<and> reconstruct_entities
       [fragment ''hyper'' ''DISEASE'' 20 25 (9/10), fragment ''tension'' ''DISEASE'' 25 32 (8/10)]
       ''Patient has hypertension today.'' ! 0 = fragment ''hyper'' ''DISEASE'' 20 25 (9/10)"
proof -
  let ?es = "[fragment ''hyper'' ''DISEASE'' 20 25 (9/10),
              fragment ''tension'' ''DISEASE'' 25 32 (8/10)]"
  let ?t = "''Patient has hypertension today.''"
  have g: "merge_groups ?es = [?es]" by code_simp
  have e: "group_end ?es = 32" by code_simp
  have l: "int (length ?t) < 32" by simp
  from offsets_past_text_keep_word [of ?es ?t 0 0]
  have "\<forall>k<length (merge_groups ?es).
        int (length ?t) \<le> group_start (merge_groups ?es ! k) \<or>
        int (length ?t) < group_end (merge_groups ?es ! k)
        \<longrightarrow> reconstruct_entities ?es ?t ! k = hd (merge_groups ?es ! k)"
    by blast
  from this [rule_format, of 0] g e l
  have "reconstruct_entities ?es ?t ! 0 = fragment ''hyper'' ''DISEASE'' 20 25 (9/10)"
    by simp
  with g l show ?thesis by blast
qed

text \<open>
  Claim C6, as stated: a group whose start and end lie within the text gets the word
  \<open>original_text[start:end]\<close> with trailing punctuation stripped. The source strips
  surrounding whitespace from the slice first, and its guard needs the start to be
  strictly below the length of the text: a slice ending in a space loses it, and a group
  at the very end of the text keeps its fragment's word.
\<close>

theorem slice_only_counterexample:
  "merge_groups [fragment ''fl'' ''DISEASE'' 0 4 1] = [[fragment ''fl'' ''DISEASE'' 0 4 1]]
   \<and> rstrip punctuation (py_slice ''flu shot'' 0 4) = ''flu ''
   \<and> reconstruct_entities [fragment ''fl'' ''DISEASE'' 0 4 1] ''flu shot'' =
       [fragment ''flu'' ''DISEASE'' 0 4 1]
   \<and> rstrip punctuation (py_slice ''ab'' 2 2) = []
   \<and> reconstruct_entities [fragment ''x1'' ''DISEASE'' 2 2 1] ''ab'' =
       [fragment ''x1'' ''DISEASE'' 2 2 1]"
  by code_simp

text \<open>
  Claim C6, amended. For every entity list (sorted or not) and every text, the output is
  one entity per merge group, in input order, where the groups partition the input into
  maximal runs: each next entity starts at most two characters after the merged end so
  far, the merged end grows to the maximum of itself and the next entity's end, and the
  entity after a group starts more than two characters after the group's merged end. For
  a group with start below the length of the text and merged end at most the length, the
  output word is \<open>original_text[start:end]\<close> with surrounding whitespace stripped and
  then trailing characters among \<open>.,;:!?\<close> stripped; otherwise it is the first
  fragment's word. All other attributes are those of the group's first fragment, and the
  empty input gives the empty output.
\<close>

theorem reconstruct_entities_by_groups:
  "reconstruct_entities es t = map (rebuild t) (merge_groups es)
   \<and> concat (merge_groups es) = es
   \<and> (\<forall>g\<in>set (merge_groups es). g \<noteq> [] \<and> is_run (get_end (hd g)) (tl g))
   \<and> separated (merge_groups es)
   \<and> (group_start g < int (length t) \<and> group_end g \<le> int (length t) \<longrightarrow>
        word (rebuild t g) =
          Some (rstrip punctuation (strip (py_slice t (group_start g) (group_end g)))))
   \<and> (\<not> (group_start g < int (length t) \<and> group_end g \<le> int (length t)) \<longrightarrow>
        word (rebuild t g) = word (hd g))
   \<and> entity (rebuild t g) = entity (hd g)
   \<and> entity_group (rebuild t g) = entity_group (hd g)
   \<and> score (rebuild t g) = score (hd g)
   \<and> start (rebuild t g) = start (hd g)
   \<and> end_offset (rebuild t g) = end_offset (hd g)
   \<and> reconstruct_entities [] t = []"
proof -
  have "\<forall>g\<in>set (merge_groups es). g \<noteq> [] \<and> is_run (get_end (hd g)) (tl g)"
    using merge_groups_run by blast
  moreover have "group_start g < int (length t) \<and> group_end g \<le> int (length t) \<longrightarrow>
        word (rebuild t g) =
          Some (rstrip punctuation (strip (py_slice t (group_start g) (group_end g))))"
    by (simp add: rebuild_def assign_word_def)
  moreover have "\<not> (group_start g < int (length t) \<and> group_end g \<le> int (length t)) \<longrightarrow>
        word (rebuild t g) = word (hd g)"
    by (simp add: rebuild_def assign_word_def)
  moreover have "reconstruct_entities [] t = []"
    by (simp add: reconstruct_entities_def)
  ultimately show ?thesis
    by (simp add: reconstruct_entities_groups concat_merge_groups separated_merge_groups
        rebuild_def assign_word_fields)
qed

theorem reconstruct_entities_witness:
  "merge_groups
     [fragment ''hyper'' ''DISEASE'' 12 17 (9/10), fragment ''tension'' ''DISEASE'' 17 24 (8/10),
      fragment ''fe'' ''Sign_symptom'' 29 35 (7/10)] =
     [[fragment ''hyper'' ''DISEASE'' 12 17 (9/10), fragment ''tension'' ''DISEASE'' 17 24 (8/10)],
      [fragment ''fe'' ''Sign_symptom'' 29 35 (7/10)]]
   \<and> group_start
        [fragment ''hyper'' ''DISEASE'' 12 17 (9/10), fragment ''tension'' ''DISEASE'' 17 24 (8/10)]
        < int (length ''Patient has hypertension and fever.'')
   \<and> group_end
        [fragment ''hyper'' ''DISEASE'' 12 17 (9/10), fragment ''tension'' ''DISEASE'' 17 24 (8/10)]
        \<le> int (length ''Patient has hypertension and fever.'')
   \<and> word (rebuild ''Patient has hypertension and fever.''
        [fragment ''hyper'' ''DISEASE'' 12 17 (9/10), fragment ''tension'' ''DISEASE'' 17 24 (8/10)])
       = Some ''hypertension''
   \<and> reconstruct_entities
     [fragment ''hyper'' ''DISEASE'' 12 17 (9/10), fragment ''tension'' ''DISEASE'' 17 24 (8/10),
      fragment ''fe'' ''Sign_symptom'' 29 35 (7/10)]
     ''Patient has hypertension and fever.'' =
     [fragment ''hypertension'' ''DISEASE'' 12 17 (9/10),
      fragment ''fever'' ''Sign_symptom'' 29 35 (7/10)]"
proof -
  let ?g = "[fragment ''hyper'' ''DISEASE'' 12 17 (9/10),
             fragment ''tension'' ''DISEASE'' 17 24 (8/10)]"
  let ?h = "[fragment ''fe'' ''Sign_symptom'' 29 35 (7/10)]"
  let ?t = "''Patient has hypertension and fever.''"
  have mg: "merge_groups (?g @ ?h) = [?g, ?h]" by code_simp
  have s: "group_start ?g < int (length ?t)" by code_simp
  have e: "group_end ?g \<le> int (length ?t)" by code_simp
  have sl: "rstrip punctuation (strip (py_slice ?t (group_start ?g) (group_end ?g)))
      = ''hypertension''" by code_simp
  have rh: "rebuild ?t ?h = fragment ''fever'' ''Sign_symptom'' 29 35 (7/10)" by code_simp
  have rg: "rebuild ?t ?g = fragment ''hypertension'' ''DISEASE'' 12 17 (9/10)" by code_simp
  note th = reconstruct_entities_by_groups [of "?g @ ?h" ?t ?g]
  from th s e sl have w: "word (rebuild ?t ?g) = Some ''hypertension''" by simp
  from th have "reconstruct_entities (?g @ ?h) ?t = map (rebuild ?t) (merge_groups (?g @ ?h))"
    by blast
  with mg rg rh have "reconstruct_entities (?g @ ?h) ?t =
      [fragment ''hypertension'' ''DISEASE'' 12 17 (9/10),
       fragment ''fever'' ''Sign_symptom'' 29 35 (7/10)]"
    by simp
  with mg s e w show ?thesis by simp
qed

end
